theory Spec2Isabelle
  imports Complex_Main "HOL-Library.Product_Lexorder" "HOL-Library.AList" "HOL-Library.Multiset"
begin

section \<open>Values of the Python program\<close>

text \<open>
  A Python \<^verbatim>\<open>str\<close> is a sequence of Unicode code points, so a text is a list of
  code points; \<open>ascii\<close> writes an ASCII literal. A finite Python \<^verbatim>\<open>float\<close> is the
  rational number the double stands for. Where the program makes a float from a text
  or prints the result of float arithmetic, the model rounds to the nearest double
  (\<open>nearest_double\<close>); the comparisons of the clustering, of the trigger and of the
  price lists are taken on the exact quotients. An exception is a value of
  \<open>py_error\<close>, and a function that can raise returns \<open>py_error + 'a\<close>.
\<close>

type_synonym ustr = "nat list"

abbreviation (input) ascii :: "string \<Rightarrow> ustr" where
  "ascii s \<equiv> map of_char s"

datatype py_error = ZeroDivisionError | IndexError | ValueError

fun try_map :: "('a \<Rightarrow> py_error + 'b) \<Rightarrow> 'a list \<Rightarrow> py_error + 'b list" where
  "try_map f [] = Inr []"
| "try_map f (x # xs) =
     (case f x of
        Inl e \<Rightarrow> Inl e
      | Inr y \<Rightarrow> (case try_map f xs of Inl e \<Rightarrow> Inl e | Inr ys \<Rightarrow> Inr (y # ys)))"

subsection \<open>Fixed-point formatting of the f-strings\<close>

text \<open>
  \<^verbatim>\<open>f"{x:.0f}"\<close> and \<^verbatim>\<open>f"{x:.1f}"\<close> print \<open>x\<close> rounded to 0 and 1 decimals, a tie going
  to the even digit, with a minus sign for a negative \<open>x\<close>.
\<close>

fun show_nat :: "nat \<Rightarrow> ustr" where
  "show_nat n = (if n < 10 then [48 + n] else show_nat (n div 10) @ [48 + n mod 10])"

declare show_nat.simps [simp del]

definition round_half_even :: "rat \<Rightarrow> nat" where
  "round_half_even x =
     (let f = nat \<lfloor>x\<rfloor>; r = x - of_int \<lfloor>x\<rfloor>
      in if r < 1 / 2 then f else if 1 / 2 < r then f + 1 else if even f then f else f + 1)"

definition format_f0 :: "rat \<Rightarrow> ustr" where
  "format_f0 x = (if x < 0 then ascii ''-'' else []) @ show_nat (round_half_even \<bar>x\<bar>)"

definition format_f1 :: "rat \<Rightarrow> ustr" where
  "format_f1 x =
     (let n = round_half_even (\<bar>x\<bar> * 10)
      in (if x < 0 then ascii ''-'' else []) @ show_nat (n div 10) @ ascii ''.'' @ show_nat (n mod 10))"

subsection \<open>Binary floating point\<close>

text \<open>
  A double is a multiple of a power of two with at most 53 significant bits, the
  exponent of the unit in the last place being no less than -1074; a value too large
  for the greatest double is an infinity. \<open>nearest_double x\<close> is the double nearest to
  \<open>x\<close>, a tie going to the even significand: the float that \<^verbatim>\<open>float(text)\<close> and each
  arithmetic operation return for the exact result \<open>x\<close>.
\<close>

datatype pyfloat = Finite rat | PosInf | NegInf

fun bit_length :: "nat \<Rightarrow> nat" where
  "bit_length n = (if n = 0 then 0 else Suc (bit_length (n div 2)))"

declare bit_length.simps [simp del]

text \<open>The exponent of the greatest power of two that is at most \<open>x\<close>, for \<open>0 < x\<close>.\<close>

definition binade :: "rat \<Rightarrow> int" where
  "binade x =
     (if 1 \<le> x then int (bit_length (nat \<lfloor>x\<rfloor>)) - 1
      else - int (bit_length (nat \<lceil>1 / x\<rceil> - 1)))"

definition pow2 :: "int \<Rightarrow> rat" where
  "pow2 e = (if 0 \<le> e then 2 ^ nat e else 1 / 2 ^ nat (- e))"

definition ulp_exponent :: "rat \<Rightarrow> int" where
  "ulp_exponent x = max (binade x - 52) (- 1074)"

definition nearest_double :: "rat \<Rightarrow> pyfloat" where
  "nearest_double x =
     (if x = 0 then Finite 0
      else
        (let e = ulp_exponent \<bar>x\<bar>; m = round_half_even (\<bar>x\<bar> / pow2 e)
         in if 971 < e \<or> (e = 971 \<and> m = 2 ^ 53) then (if 0 < x then PosInf else NegInf)
            else Finite (sgn x * of_nat m * pow2 e)))"

text \<open>
  Division and multiplication of a float by a finite float other than zero, and the
  f-string format \<^verbatim>\<open>.1f\<close> of a float.
\<close>

definition float_div :: "pyfloat \<Rightarrow> rat \<Rightarrow> pyfloat" where
  "float_div a b =
     (case a of
        Finite x \<Rightarrow> nearest_double (x / b)
      | PosInf \<Rightarrow> if 0 < b then PosInf else NegInf
      | NegInf \<Rightarrow> if 0 < b then NegInf else PosInf)"

definition float_mul :: "pyfloat \<Rightarrow> rat \<Rightarrow> pyfloat" where
  "float_mul a b =
     (case a of
        Finite x \<Rightarrow> nearest_double (x * b)
      | PosInf \<Rightarrow> if 0 < b then PosInf else NegInf
      | NegInf \<Rightarrow> if 0 < b then NegInf else PosInf)"

definition format_float_f1 :: "pyfloat \<Rightarrow> ustr" where
  "format_float_f1 a =
     (case a of Finite x \<Rightarrow> format_f1 x | PosInf \<Rightarrow> ascii ''inf'' | NegInf \<Rightarrow> ascii ''-inf'')"

section \<open>Pricing consistency: \<^verbatim>\<open>analyze_pricing_consistency\<close>\<close>

text \<open>An entry of \<^verbatim>\<open>price_groups[category]\<close>.\<close>

record price_info =
  url :: ustr
  price :: rat
  original :: ustr
  context_text :: ustr
  language :: ustr

text \<open>
  The inner loop over \<^verbatim>\<open>unique_prices\<close>: the groups are scanned in order, the fact joins
  the first group whose first member is within 10 percent and the scan stops
  (\<^verbatim>\<open>break\<close>). The result is \<open>None\<close> when \<^verbatim>\<open>is_duplicate\<close> stays false, and the
  updated groups otherwise. The division raises when the first member's price is zero.
\<close>

fun scan_groups :: "price_info \<Rightarrow> price_info list list \<Rightarrow> py_error + price_info list list option" where
  "scan_groups price_info [] = Inr None"
| "scan_groups price_info (existing_group # rest) =
     (case existing_group of
        [] \<Rightarrow> Inl IndexError
      | first # _ \<Rightarrow>
          (let price_val = price price_info; existing_price = price first
           in if existing_price = 0 then Inl ZeroDivisionError
              else if \<bar>price_val - existing_price\<bar> / existing_price < 1 / 10
              then Inr (Some ((existing_group @ [price_info]) # rest))
              else (case scan_groups price_info rest of
                      Inl e \<Rightarrow> Inl e
                    | Inr None \<Rightarrow> Inr None
                    | Inr (Some rest') \<Rightarrow> Inr (Some (existing_group # rest')))))"

text \<open>The outer loop \<^verbatim>\<open>for price_info in prices\<close>, with \<^verbatim>\<open>unique_prices\<close> as the state.\<close>

fun cluster_loop :: "price_info list \<Rightarrow> price_info list list \<Rightarrow> py_error + price_info list list" where
  "cluster_loop [] unique_prices = Inr unique_prices"
| "cluster_loop (price_info # prices) unique_prices =
     (case scan_groups price_info unique_prices of
        Inl e \<Rightarrow> Inl e
      | Inr None \<Rightarrow> cluster_loop prices (unique_prices @ [[price_info]])
      | Inr (Some unique_prices') \<Rightarrow> cluster_loop prices unique_prices')"

definition cluster_prices :: "price_info list \<Rightarrow> py_error + price_info list list" where
  "cluster_prices prices = cluster_loop prices []"

text \<open>An entry of \<^verbatim>\<open>occurrences\<close> and an entry of \<^verbatim>\<open>pricing_discrepancies\<close>.\<close>

record occurrence =
  occ_url :: ustr
  occ_price :: ustr
  occ_context :: ustr
  occ_language :: ustr
  occ_count :: nat

record pricing_discrepancy =
  category :: ustr
  price_range :: ustr
  difference_percentage :: ustr
  occurrences :: "occurrence list"

definition group_range :: "price_info list \<Rightarrow> py_error + rat \<times> nat" where
  "group_range grp =
     (case grp of [] \<Rightarrow> Inl IndexError | first # _ \<Rightarrow> Inr (price first, length grp))"

definition group_occurrence :: "price_info list \<Rightarrow> py_error + occurrence" where
  "group_occurrence grp =
     (case grp of
        [] \<Rightarrow> Inl IndexError
      | first # _ \<Rightarrow>
          Inr \<lparr>occ_url = url first,
               occ_price = ascii ''Rs. '' @ format_f0 (price first),
               occ_context = context_text first,
               occ_language = language first,
               occ_count = length grp\<rparr>)"

text \<open>
  The report step for the groups of one category (the body of
  \<^verbatim>\<open>if len(unique_prices) > 1\<close>): the discrepancies it appends. The percentage it
  prints is the float the three operations of
  \<^verbatim>\<open>(max_price - min_price) / min_price * 100\<close> give, each rounded.
\<close>

definition report_groups :: "ustr \<Rightarrow> price_info list list \<Rightarrow> py_error + pricing_discrepancy list" where
  "report_groups cat unique_prices =
     (if 1 < length unique_prices then
        (case try_map group_range unique_prices of
           Inl e \<Rightarrow> Inl e
         | Inr ranges \<Rightarrow>
            (let price_ranges = sort ranges;
                 min_price = fst (hd price_ranges);
                 max_price = fst (last price_ranges)
             in if min_price = 0 then Inl ZeroDivisionError
                else if 2 / 10 < (max_price - min_price) / min_price then
                  (case try_map group_occurrence unique_prices of
                     Inl e \<Rightarrow> Inl e
                   | Inr occs \<Rightarrow>
                       Inr [\<lparr>category = cat,
                             price_range = ascii ''Rs. '' @ format_f0 min_price
                                @ ascii '' - Rs. '' @ format_f0 max_price,
                             difference_percentage =
                                format_float_f1
                                  (float_mul
                                     (float_div (nearest_double (max_price - min_price)) min_price)
                                     100)
                                @ ascii ''%'',
                             occurrences = occs\<rparr>])
                else Inr []))
      else Inr [])"

text \<open>The body of the loop \<^verbatim>\<open>for category, prices in price_groups.items()\<close>.\<close>

definition analyze_category :: "ustr \<Rightarrow> price_info list \<Rightarrow> py_error + pricing_discrepancy list" where
  "analyze_category cat prices =
     (if 1 < length prices then
        (case cluster_prices prices of
           Inl e \<Rightarrow> Inl e
         | Inr unique_prices \<Rightarrow> report_groups cat unique_prices)
      else Inr [])"

subsection \<open>The clustering policy and the trigger in the words of the specification\<close>

text \<open>
  The distance the clustering compares with its tolerance: the absolute difference
  relative to the second value (the representative).
\<close>

definition rel_dist :: "rat \<Rightarrow> rat \<Rightarrow> rat" where
  "rel_dist v rep = \<bar>v - rep\<bar> / rep"

text \<open>
  Greedy nearest-bucket insertion as the specification words it: the clusters are
  scanned in insertion order, the fact joins the first cluster whose representative (its
  first member) is within the tolerance, and opens a new cluster when there is none.
\<close>

definition spec_near :: "price_info \<Rightarrow> price_info list \<Rightarrow> bool" where
  "spec_near pf cluster = (rel_dist (price pf) (price (hd cluster)) < 1 / 10)"

definition spec_insert :: "price_info \<Rightarrow> price_info list list \<Rightarrow> price_info list list" where
  "spec_insert pf clusters =
     (case dropWhile (\<lambda>c. \<not> spec_near pf c) clusters of
        [] \<Rightarrow> clusters @ [[pf]]
      | c # later \<Rightarrow> takeWhile (\<lambda>c. \<not> spec_near pf c) clusters @ (c @ [pf]) # later)"

definition spec_cluster :: "price_info list \<Rightarrow> price_info list list" where
  "spec_cluster pfs = foldl (\<lambda>clusters pf. spec_insert pf clusters) [] pfs"

text \<open>
  The trigger as the specification words it: more than one cluster, and the spread of
  the representatives relative to the least one above 20 percent.
\<close>

definition representatives :: "price_info list list \<Rightarrow> rat list" where
  "representatives clusters = map (\<lambda>c. price (hd c)) clusters"

definition spec_trigger :: "price_info list list \<Rightarrow> bool" where
  "spec_trigger clusters =
     (1 < length clusters \<and>
      2 / 10 < (Max (set (representatives clusters)) - Min (set (representatives clusters)))
                 / Min (set (representatives clusters)))"

text \<open>A price fact with a given value, for the examples.\<close>

definition price_fact :: "rat \<Rightarrow> price_info" where
  "price_fact v =
     \<lparr>url = ascii ''https://www.slt.lk/en/broadband'', price = v, original = [],
      context_text = [], language = ascii ''english''\<rparr>"

subsection \<open>Invariants of the clustering loop\<close>

definition heads_nonzero :: "price_info list list \<Rightarrow> bool" where
  "heads_nonzero gs = (\<forall>g\<in>set gs. g \<noteq> [] \<and> price (hd g) \<noteq> 0)"

definition rep_ok :: "price_info list \<Rightarrow> bool" where
  "rep_ok g =
     (g \<noteq> [] \<and> (\<forall>m\<in>set (tl g). price (hd g) \<noteq> 0 \<and> rel_dist (price m) (price (hd g)) < 1 / 10))"

definition within_rep :: "price_info list list \<Rightarrow> bool" where
  "within_rep gs = (\<forall>g\<in>set gs. rep_ok g)"

definition two_inv :: "price_info list list \<Rightarrow> bool" where
  "two_inv gs =
     ((\<forall>g\<in>set gs. g \<noteq> [] \<and> price (hd g) \<in> {1000, 1500}) \<and> distinct (representatives gs))"

definition one_inv :: "price_info list list \<Rightarrow> bool" where
  "one_inv gs =
     (gs = [] \<or> (\<exists>g. gs = [g] \<and> g \<noteq> [] \<and> 1000 \<le> price (hd g) \<and> price (hd g) \<le> 1050))"

definition the_occurrence :: "price_info list \<Rightarrow> occurrence" where
  "the_occurrence g =
     \<lparr>occ_url = url (hd g), occ_price = ascii ''Rs. '' @ format_f0 (price (hd g)),
      occ_context = context_text (hd g), occ_language = language (hd g), occ_count = length g\<rparr>"

section \<open>Language classification: \<^verbatim>\<open>detect_language\<close>\<close>

text \<open>
  \<^verbatim>\<open>str.isspace\<close> on one character: the whitespace characters of Python's Unicode
  tables.
\<close>

definition py_isspace :: "nat \<Rightarrow> bool" where
  "py_isspace c =
     ((0x09 \<le> c \<and> c \<le> 0x0D) \<or> (0x1C \<le> c \<and> c \<le> 0x20) \<or> c = 0x85 \<or> c = 0xA0
      \<or> c = 0x1680 \<or> (0x2000 \<le> c \<and> c \<le> 0x200A) \<or> c = 0x2028 \<or> c = 0x2029
      \<or> c = 0x202F \<or> c = 0x205F \<or> c = 0x3000)"

text \<open>\<^verbatim>\<open>text.strip()\<close>: the whitespace at both ends removed.\<close>

definition py_strip :: "ustr \<Rightarrow> ustr" where
  "py_strip s = rev (dropWhile py_isspace (rev (dropWhile py_isspace s)))"

text \<open>\<^verbatim>\<open>'\u0D80' <= char <= '\u0DFF'\<close> and \<^verbatim>\<open>char.isalpha() and ord(char) < 128\<close>.\<close>

definition is_sinhala :: "nat \<Rightarrow> bool" where
  "is_sinhala c = (0x0D80 \<le> c \<and> c \<le> 0x0DFF)"

definition is_ascii_alpha :: "nat \<Rightarrow> bool" where
  "is_ascii_alpha c = ((0x41 \<le> c \<and> c \<le> 0x5A) \<or> (0x61 \<le> c \<and> c \<le> 0x7A))"

text \<open>\<^verbatim>\<open>ContentConsistencyAnalyzer.detect_language\<close>.\<close>

definition detect_language :: "ustr \<Rightarrow> ustr" where
  "detect_language txt =
     (if txt = [] \<or> py_strip txt = [] then ascii ''empty''
      else
        (let sinhala_chars = length (filter is_sinhala txt);
             english_chars = length (filter is_ascii_alpha txt);
             total_alpha_chars = sinhala_chars + english_chars
         in if total_alpha_chars = 0 then ascii ''no_text''
            else
              (let sinhala_ratio = (of_nat sinhala_chars :: rat) / of_nat total_alpha_chars;
                   english_ratio = (of_nat english_chars :: rat) / of_nat total_alpha_chars
               in if 7 / 10 < sinhala_ratio then ascii ''sinhala''
                  else if 7 / 10 < english_ratio then ascii ''english''
                  else if 1 / 10 < sinhala_ratio \<and> 1 / 10 < english_ratio then ascii ''mixed''
                  else ascii ''other'')))"

text \<open>
  \<^verbatim>\<open>DiscrepancyAnalyzer.detect_language\<close>, the classifier of the second analyzer: the
  ratios are taken over the characters other than the space.
\<close>

definition da_detect_language :: "ustr \<Rightarrow> ustr" where
  "da_detect_language txt =
     (if txt = [] then ascii ''unknown''
      else
        (let sinhala_chars = length (filter is_sinhala txt);
             english_chars = length (filter is_ascii_alpha txt);
             total_chars = length (filter (\<lambda>c. c \<noteq> 0x20) txt)
         in if total_chars = 0 then ascii ''unknown''
            else
              (let sinhala_ratio = (of_nat sinhala_chars :: rat) / of_nat total_chars;
                   english_ratio = (of_nat english_chars :: rat) / of_nat total_chars
               in if 1 / 10 < sinhala_ratio
                  then (if english_ratio < sinhala_ratio then ascii ''sinhala'' else ascii ''mixed'')
                  else if 1 / 2 < english_ratio then ascii ''english''
                  else ascii ''mixed'')))"

text \<open>
  The classification in the words of the specification, on the two counts: with
  \<open>total = sinhala_count + english_count\<close>, \<open>no_text\<close> when the total is zero, and
  otherwise by the two ratios.
\<close>

definition spec_classify :: "nat \<Rightarrow> nat \<Rightarrow> ustr" where
  "spec_classify sinhala_count english_count =
     (let total = sinhala_count + english_count;
          sinhala_ratio = (of_nat sinhala_count :: rat) / of_nat total;
          english_ratio = (of_nat english_count :: rat) / of_nat total
      in if total = 0 then ascii ''no_text''
         else if 7 / 10 < sinhala_ratio then ascii ''sinhala''
         else if 7 / 10 < english_ratio then ascii ''english''
         else if 1 / 10 < sinhala_ratio \<and> 1 / 10 < english_ratio then ascii ''mixed''
         else ascii ''other'')"

section \<open>Translation analysis: page buckets, pairing and price lists\<close>

text \<open>
  A page of \<^verbatim>\<open>self.data\<close>, with the defaults of \<^verbatim>\<open>page_data.get\<close> applied: the title, the
  text and the texts of the OCR images.
\<close>

record page_data =
  page_title :: ustr
  page_text :: ustr
  ocr_images :: "ustr list"

text \<open>The text every analysis builds per page: \<^verbatim>\<open>all_text\<close>.\<close>

definition all_text :: "page_data \<Rightarrow> ustr" where
  "all_text pd =
     foldl (\<lambda>acc ocr_text. if ocr_text \<noteq> [] then acc @ ascii '' '' @ ocr_text else acc)
       (page_title pd @ ascii '' '' @ page_text pd) (ocr_images pd)"

text \<open>
  The three dictionaries \<^verbatim>\<open>analyze_translation_consistency\<close> fills. A \<^verbatim>\<open>page_info\<close> is
  held by its \<^verbatim>\<open>'text'\<close> entry; its other entries are what the extractors give on
  that text.
\<close>

record language_buckets =
  english_pages :: "(ustr \<times> ustr) list"
  sinhala_pages :: "(ustr \<times> ustr) list"
  mixed_pages :: "(ustr \<times> ustr) list"

definition no_pages :: language_buckets where
  "no_pages = \<lparr>english_pages = [], sinhala_pages = [], mixed_pages = []\<rparr>"

fun partition_pages :: "(ustr \<times> page_data) list \<Rightarrow> language_buckets \<Rightarrow> language_buckets" where
  "partition_pages [] b = b"
| "partition_pages ((u, pd) # rest) b =
     (let txt = all_text pd; lang = detect_language txt
      in partition_pages rest
           (if lang = ascii ''english'' then b\<lparr>english_pages := AList.update u txt (english_pages b)\<rparr>
            else if lang = ascii ''sinhala'' then b\<lparr>sinhala_pages := AList.update u txt (sinhala_pages b)\<rparr>
            else if lang = ascii ''mixed'' then b\<lparr>mixed_pages := AList.update u txt (mixed_pages b)\<rparr>
            else b))"

text \<open>
  \<^verbatim>\<open>s.replace(old, new)\<close> for a non-empty \<^verbatim>\<open>old\<close>: the occurrences are replaced from
  the left, without overlap.
\<close>

function py_replace :: "ustr \<Rightarrow> ustr \<Rightarrow> ustr \<Rightarrow> ustr" where
  "py_replace old new [] = []"
| "py_replace old new (c # s) =
     (if old \<noteq> [] \<and> take (length old) (c # s) = old
      then new @ py_replace old new (drop (length old) (c # s))
      else c # py_replace old new s)"
  by pat_completeness auto
termination
  by (relation "measure (\<lambda>(old, new, s). length s)") auto

text \<open>
  What \<^verbatim>\<open>might_be_translations\<close> reads of a \<^verbatim>\<open>page_info\<close>: the extracted prices and the
  names of the extracted features.
\<close>

record page_info =
  info_prices :: "rat list"
  info_features :: "ustr list"

definition normalize_url :: "ustr \<Rightarrow> ustr" where
  "normalize_url u = py_replace (ascii ''/si/'') (ascii ''/'') (py_replace (ascii ''/en/'') (ascii ''/'') u)"

definition might_be_translations :: "ustr \<Rightarrow> ustr \<Rightarrow> page_info \<Rightarrow> page_info \<Rightarrow> bool" where
  "might_be_translations url1 url2 info1 info2 =
     (if normalize_url url1 = normalize_url url2 then True
      else if \<bar>int (length (info_prices info1)) - int (length (info_prices info2))\<bar> \<le> 1
              \<and> 0 < length (info_prices info1) then True
      else
        (let features1 = set (info_features info1); features2 = set (info_features info2)
         in if features1 \<noteq> {} \<and> features2 \<noteq> {} then
              (let overlap = card (features1 \<inter> features2); total = card (features1 \<union> features2)
               in if 0 < total \<and> 1 / 2 < (of_nat overlap :: rat) / of_nat total then True else False)
            else False))"

text \<open>
  \<^verbatim>\<open>price_lists_match\<close>: the loop over \<^verbatim>\<open>zip(prices1_sorted, prices2_sorted)\<close> returns
  at the first pair beyond the tolerance, and its division raises when the larger of a
  pair is zero.
\<close>

fun match_pairs :: "(rat \<times> rat) list \<Rightarrow> rat \<Rightarrow> py_error + bool" where
  "match_pairs [] tolerance = Inr True"
| "match_pairs ((p1, p2) # rest) tolerance =
     (if max p1 p2 = 0 then Inl ZeroDivisionError
      else if tolerance < \<bar>p1 - p2\<bar> / max p1 p2 then Inr False
      else match_pairs rest tolerance)"

definition price_lists_match :: "rat list \<Rightarrow> rat list \<Rightarrow> rat \<Rightarrow> py_error + bool" where
  "price_lists_match prices1 prices2 tolerance =
     (if length prices1 \<noteq> length prices2 then Inr False
      else match_pairs (zip (sort prices1) (sort prices2)) tolerance)"

definition blank :: "ustr \<Rightarrow> bool" where
  "blank txt = list_all py_isspace txt"

definition sinhala_page :: page_data where
  "sinhala_page = \<lparr>page_title = [], page_text = replicate 8 0x0D85, ocr_images = []\<rparr>"

definition mostly_english_page :: page_data where
  "mostly_english_page =
     \<lparr>page_title = ascii ''Fibre'', page_text = ascii ''abc'' @ [0x0DC3, 0x0DD2], ocr_images = []\<rparr>"

section \<open>Price extraction: \<^verbatim>\<open>extract_prices\<close>\<close>



subsection \<open>Regular expressions as the backtracking matcher runs them\<close>









subsection \<open>The five price patterns, under \<^verbatim>\<open>re.IGNORECASE\<close>\<close>

text \<open>
  The lower-case form the matcher compares under \<^verbatim>\<open>re.IGNORECASE\<close>, for the
  characters whose form is an ASCII letter: the letters \<open>A\<close> to \<open>Z\<close>, the Kelvin sign
  (\<open>k\<close>) and the dotted capital I (\<open>i\<close>). A literal of a pattern matches a character
  with the same lower-case form; the literal \<open>s\<close> also matches the long s and the
  literal \<open>i\<close> the dotless i.
\<close>

definition re_lower :: "nat \<Rightarrow> nat" where
  "re_lower c =
     (if 0x41 \<le> c \<and> c \<le> 0x5A then c + 0x20
      else if c = 0x212A then 0x6B else if c = 0x130 then 0x69 else c)"

definition ignorecase_eq :: "nat \<Rightarrow> nat \<Rightarrow> bool" where
  "ignorecase_eq c d =
     (re_lower d = re_lower c \<or> (re_lower c = 0x73 \<and> d = 0x17F) \<or> (re_lower c = 0x69 \<and> d = 0x131))"












subsection \<open>\<^verbatim>\<open>float\<close>, \<^verbatim>\<open>str.find\<close> and the context of a price\<close>









subsection \<open>Price strings in the words of the specification\<close>










subsection \<open>Notions for the proofs about the matcher\<close>






section \<open>Properties of the pricing analysis\<close>

lemma try_map_Inr: "\<forall>x\<in>set xs. f x = Inr (g x) \<Longrightarrow> try_map f xs = Inr (map g xs)"
  by (induction xs) auto

lemma spec_insert_Nil: "spec_insert p [] = [[p]]"
  by (simp add: spec_insert_def)

lemma spec_insert_Cons:
  "spec_insert p (g # gs) = (if spec_near p g then (g @ [p]) # gs else g # spec_insert p gs)"
proof (cases "spec_near p g")
  case True
  then show ?thesis by (simp add: spec_insert_def)
next
  case False
  then show ?thesis
    by (cases "dropWhile (\<lambda>c. \<not> spec_near p c) gs") (simp_all add: spec_insert_def del: dropWhile_eq_Nil_conv)
qed

lemma scan_groups_spec:
  "scan_groups p gs = Inr r \<Longrightarrow>
     spec_insert p gs = (case r of None \<Rightarrow> gs @ [[p]] | Some gs' \<Rightarrow> gs')"
proof (induction gs arbitrary: r)
  case Nil
  then show ?case by (auto simp: spec_insert_Nil)
next
  case (Cons g gs)
  then show ?case
    by (cases g)
       (auto simp: spec_insert_Cons spec_near_def rel_dist_def Let_def
             split: if_splits sum.splits option.splits)
qed

lemma cluster_loop_spec:
  "cluster_loop ps gs = Inr cs \<Longrightarrow> cs = foldl (\<lambda>clusters pf. spec_insert pf clusters) gs ps"
proof (induction ps arbitrary: gs)
  case Nil
  then show ?case by simp
next
  case (Cons p ps)
  then show ?case
    by (auto split: sum.splits option.splits dest!: scan_groups_spec)
qed

lemma scan_groups_total:
  "heads_nonzero gs \<Longrightarrow> \<exists>r. scan_groups p gs = Inr r"
  by (induction gs) (auto simp: heads_nonzero_def Let_def split: list.splits option.splits sum.splits)

lemma scan_groups_heads:
  "scan_groups p gs = Inr (Some gs') \<Longrightarrow> heads_nonzero gs \<Longrightarrow> heads_nonzero gs'"
  by (induction gs arbitrary: gs')
     (auto simp: heads_nonzero_def Let_def split: list.splits option.splits sum.splits if_splits)

lemma cluster_loop_total:
  "heads_nonzero gs \<Longrightarrow> \<forall>p\<in>set ps. price p \<noteq> 0 \<Longrightarrow> \<exists>cs. cluster_loop ps gs = Inr cs \<and> heads_nonzero cs"
proof (induction ps arbitrary: gs)
  case Nil
  then show ?case by simp
next
  case (Cons p ps)
  obtain r where r: "scan_groups p gs = Inr r"
    using scan_groups_total [OF Cons.prems(1)] by blast
  show ?case
  proof (cases r)
    case None
    have "heads_nonzero (gs @ [[p]])"
      using Cons.prems by (simp add: heads_nonzero_def)
    with Cons.IH [of "gs @ [[p]]"] Cons.prems(2) r None show ?thesis by simp
  next
    case (Some gs')
    have "heads_nonzero gs'"
      using scan_groups_heads r Some Cons.prems(1) by blast
    with Cons.IH [of gs'] Cons.prems(2) r Some show ?thesis by simp
  qed
qed

lemma within_rep_Cons: "within_rep (g # gs) = (rep_ok g \<and> within_rep gs)"
  by (simp add: within_rep_def)

lemma rep_ok_snoc:
  "rep_ok (f # g) \<Longrightarrow> price f \<noteq> 0 \<Longrightarrow> \<bar>price p - price f\<bar> / price f < 1 / 10
     \<Longrightarrow> rep_ok ((f # g) @ [p])"
  by (simp add: rep_ok_def rel_dist_def)

lemma scan_groups_within:
  "scan_groups p gs = Inr (Some gs') \<Longrightarrow> within_rep gs \<Longrightarrow> within_rep gs'"
proof (induction gs arbitrary: gs')
  case Nil
  then show ?case by simp
next
  case (Cons g gs)
  show ?case
  proof (cases g)
    case Nil
    with Cons.prems show ?thesis by simp
  next
    case (Cons f g')
    note g = this
    show ?thesis
    proof (cases "price f \<noteq> 0 \<and> \<bar>price p - price f\<bar> / price f < 1 / 10")
      case True
      then have "gs' = (g @ [p]) # gs"
        using Cons.prems(1) g by (simp add: Let_def)
      moreover have "rep_ok (g @ [p])"
        using rep_ok_snoc [of f g' p] True Cons.prems(2) g by (simp add: within_rep_Cons)
      ultimately show ?thesis
        using Cons.prems(2) by (simp add: within_rep_Cons)
    next
      case False
      then obtain rest' where "scan_groups p gs = Inr (Some rest')" "gs' = g # rest'"
        using Cons.prems(1) g
        by (auto simp: Let_def split: if_splits sum.splits option.splits)
      then show ?thesis
        using Cons.IH [of rest'] Cons.prems(2) by (simp add: within_rep_Cons)
    qed
  qed
qed

lemma cluster_loop_within:
  "cluster_loop ps gs = Inr cs \<Longrightarrow> within_rep gs \<Longrightarrow> within_rep cs"
proof (induction ps arbitrary: gs)
  case Nil
  then show ?case by simp
next
  case (Cons p ps)
  show ?case
  proof (cases "scan_groups p gs")
    case (Inl e)
    with Cons.prems show ?thesis by simp
  next
    case (Inr r)
    show ?thesis
    proof (cases r)
      case None
      have "within_rep (gs @ [[p]])"
        using Cons.prems(2) by (simp add: within_rep_def rep_ok_def)
      with Cons.IH [of "gs @ [[p]]"] Cons.prems(1) Inr None show ?thesis by simp
    next
      case (Some gs')
      have "within_rep gs'"
        using scan_groups_within Inr Some Cons.prems(2) by blast
      with Cons.IH [of gs'] Cons.prems(1) Inr Some show ?thesis by simp
    qed
  qed
qed

lemma cluster_prices_within: "cluster_prices ps = Inr cs \<Longrightarrow> within_rep cs"
  unfolding cluster_prices_def by (erule cluster_loop_within) (simp add: within_rep_def)

lemma cluster_prices_nonempty: "cluster_prices ps = Inr cs \<Longrightarrow> \<forall>g\<in>set cs. g \<noteq> []"
  using cluster_prices_within [of ps cs] by (simp add: within_rep_def rep_ok_def)

lemma sorted_hd_least: "sorted ys \<Longrightarrow> y \<in> set ys \<Longrightarrow> hd ys \<le> y"
  by (cases ys) auto

lemma sorted_last_greatest: "sorted ys \<Longrightarrow> y \<in> set ys \<Longrightarrow> y \<le> last ys"
  by (induction ys) (auto split: if_splits)

lemma fst_mono_lex: "(a :: rat \<times> nat) \<le> b \<Longrightarrow> fst a \<le> fst b"
  by (auto simp: less_eq_prod_def)

lemma fst_hd_sort:
  fixes xs :: "(rat \<times> nat) list"
  assumes "xs \<noteq> []"
  shows "fst (hd (sort xs)) = Min (fst ` set xs)"
proof -
  have ne: "sort xs \<noteq> []" using assms by (metis length_sort length_0_conv)
  have mem: "hd (sort xs) \<in> set xs" using ne by (metis hd_in_set set_sort)
  have "\<And>y. y \<in> set xs \<Longrightarrow> fst (hd (sort xs)) \<le> fst y"
    by (rule fst_mono_lex, rule sorted_hd_least) simp_all
  then show ?thesis
    using mem by (intro Min_eqI [symmetric]) auto
qed

lemma fst_last_sort:
  fixes xs :: "(rat \<times> nat) list"
  assumes "xs \<noteq> []"
  shows "fst (last (sort xs)) = Max (fst ` set xs)"
proof -
  have ne: "sort xs \<noteq> []" using assms by (metis length_sort length_0_conv)
  have mem: "last (sort xs) \<in> set xs" using ne by (metis last_in_set set_sort)
  have "\<And>y. y \<in> set xs \<Longrightarrow> fst y \<le> fst (last (sort xs))"
    by (rule fst_mono_lex, rule sorted_last_greatest) simp_all
  then show ?thesis
    using mem by (intro Max_eqI [symmetric]) auto
qed

lemma report_groups_char:
  assumes ne: "\<forall>g\<in>set cs. g \<noteq> []"
  shows "report_groups cat cs =
     (if 1 < length cs then
        (let mn = Min (set (representatives cs)); mx = Max (set (representatives cs))
         in if mn = 0 then Inl ZeroDivisionError
            else if 2 / 10 < (mx - mn) / mn then
              Inr [\<lparr>category = cat,
                    price_range = ascii ''Rs. '' @ format_f0 mn @ ascii '' - Rs. '' @ format_f0 mx,
                    difference_percentage =
                      format_float_f1 (float_mul (float_div (nearest_double (mx - mn)) mn) 100)
                      @ ascii ''%'',
                    occurrences = map the_occurrence cs\<rparr>]
            else Inr [])
      else Inr [])"
proof (cases "1 < length cs")
  case False
  then show ?thesis by (simp add: report_groups_def)
next
  case True
  let ?rs = "map (\<lambda>g. (price (hd g), length g)) cs"
  have r: "try_map group_range cs = Inr ?rs"
    by (rule try_map_Inr) (use ne in \<open>auto simp: group_range_def split: list.splits\<close>)
  have o: "try_map group_occurrence cs = Inr (map the_occurrence cs)"
    by (rule try_map_Inr)
       (use ne in \<open>auto simp: group_occurrence_def the_occurrence_def split: list.splits\<close>)
  have nn: "?rs \<noteq> []" using True by auto
  have img: "fst ` set ?rs = set (representatives cs)"
    by (auto simp: representatives_def image_iff)
  have mn: "fst (hd (sort ?rs)) = Min (set (representatives cs))"
    using fst_hd_sort [OF nn] img by simp
  have mx: "fst (last (sort ?rs)) = Max (set (representatives cs))"
    using fst_last_sort [OF nn] img by simp
  show ?thesis
    using True by (simp add: report_groups_def r o mn mx Let_def)
qed

lemma cluster_prices_short: "length ps \<le> 1 \<Longrightarrow> \<exists>cs. cluster_prices ps = Inr cs \<and> length cs \<le> 1"
  by (cases ps) (auto simp: cluster_prices_def)

lemma analyze_category_Inr:
  assumes "analyze_category cat ps = Inr ds"
  shows "\<exists>cs. cluster_prices ps = Inr cs \<and> (ds \<noteq> [] \<longleftrightarrow> spec_trigger cs) \<and> length ds \<le> 1"
proof (cases "1 < length ps")
  case False
  then obtain cs where cs: "cluster_prices ps = Inr cs" "length cs \<le> 1"
    using cluster_prices_short [of ps] by auto
  moreover have "ds = []" using assms False by (simp add: analyze_category_def)
  ultimately show ?thesis by (auto simp: spec_trigger_def)
next
  case True
  then obtain cs where cs: "cluster_prices ps = Inr cs" and rep: "report_groups cat cs = Inr ds"
    using assms by (auto simp: analyze_category_def split: sum.splits)
  have ne: "\<forall>g\<in>set cs. g \<noteq> []" using cluster_prices_nonempty [OF cs] .
  show ?thesis
    using rep cs unfolding report_groups_char [OF ne] spec_trigger_def
    by (auto simp: Let_def split: if_splits)
qed

lemma analyze_category_total:
  assumes "\<forall>p\<in>set ps. price p \<noteq> 0"
  shows "\<exists>ds. analyze_category cat ps = Inr ds"
proof -
  obtain cs where cs: "cluster_prices ps = Inr cs" and h: "heads_nonzero cs"
    using cluster_loop_total [of "[]" ps] assms by (auto simp: cluster_prices_def heads_nonzero_def)
  have ne: "\<forall>g\<in>set cs. g \<noteq> []" using h by (simp add: heads_nonzero_def)
  have "1 < length cs \<Longrightarrow> Min (set (representatives cs)) \<noteq> 0"
  proof -
    assume "1 < length cs"
    then have "set (representatives cs) \<noteq> {}" by (auto simp: representatives_def)
    then have "Min (set (representatives cs)) \<in> set (representatives cs)"
      by (intro Min_in) auto
    then show ?thesis using h by (auto simp: representatives_def heads_nonzero_def)
  qed
  then show ?thesis
    by (auto simp: analyze_category_def cs report_groups_char [OF ne] Let_def)
qed

lemma analyze_category_single:
  "cluster_prices ps = Inr [c] \<Longrightarrow> analyze_category cat ps = Inr []"
  by (simp add: analyze_category_def report_groups_def)

lemma f0_1000: "format_f0 1000 = ascii ''1000''" 
  by (simp add: format_f0_def round_half_even_def show_nat.simps)
lemma f0_1500: "format_f0 1500 = ascii ''1500''" 
  by (simp add: format_f0_def round_half_even_def show_nat.simps)

lemma floor_rat_numeral: "\<lfloor>numeral a / numeral b :: rat\<rfloor> = numeral a div numeral b"
  using floor_divide_of_int_eq [of "numeral a" "numeral b", where ?'a = rat] by simp

lemma ceiling_rat_numeral: "\<lceil>numeral a / numeral b :: rat\<rceil> = - (- numeral a div numeral b)"
  using ceiling_divide_eq_div [of "numeral a" "numeral b", where ?'a = rat] by simp

lemma bit_length_numeral: "bit_length (numeral k) = Suc (bit_length (numeral k div 2))"
  by (subst bit_length.simps) simp

lemma bit_length_0: "bit_length 0 = 0"
  by (simp add: bit_length.simps)

lemma bit_length_1: "bit_length (Suc 0) = 1"
  by (simp add: bit_length.simps)

lemmas float_eval = nearest_double_def ulp_exponent_def binade_def pow2_def bit_length_numeral
  bit_length_0 bit_length_1 round_half_even_def float_div_def float_mul_def format_float_f1_def
  Let_def floor_rat_numeral ceiling_rat_numeral

lemma f1_50: "format_float_f1 (float_mul (float_div (nearest_double 500) 1000) 100) = ascii ''50.0''"
  by (simp add: float_eval format_f1_def show_nat.simps)

lemma f1_251:
  "format_float_f1 (float_mul (float_div (nearest_double (2503 - 2000)) 2000) 100) = ascii ''25.1''"
  by (simp add: float_eval format_f1_def show_nat.simps)

lemma two_values_scan:
  assumes "\<forall>g\<in>set gs. g \<noteq> [] \<and> price (hd g) \<in> {1000, 1500}"
    and "price p \<in> {1000, 1500}"
  shows "(price p \<in> set (representatives gs) \<longrightarrow>
            (\<exists>gs'. scan_groups p gs = Inr (Some gs') \<and> representatives gs' = representatives gs
                \<and> (\<forall>g\<in>set gs'. g \<noteq> [])))
       \<and> (price p \<notin> set (representatives gs) \<longrightarrow> scan_groups p gs = Inr None)"
  using assms
proof (induction gs)
  case Nil
  then show ?case by (simp add: representatives_def)
next
  case (Cons g gs)
  then obtain f g' where g: "g = f # g'" by (cases g) auto
  have f: "price f = 1000 \<or> price f = 1500" using Cons.prems(1) g by auto
  have p: "price p = 1000 \<or> price p = 1500" using Cons.prems(2) by auto
  have ih: "(price p \<in> set (representatives gs) \<longrightarrow>
            (\<exists>gs'. scan_groups p gs = Inr (Some gs') \<and> representatives gs' = representatives gs
                \<and> (\<forall>g\<in>set gs'. g \<noteq> [])))
       \<and> (price p \<notin> set (representatives gs) \<longrightarrow> scan_groups p gs = Inr None)"
    using Cons.IH Cons.prems by simp
  show ?case
  proof (cases "price p = price f")
    case True
    then show ?thesis using f g Cons.prems(1) by (auto simp: representatives_def Let_def)
  next
    case False
    then have nn: "\<not> \<bar>price p - price f\<bar> / price f < 1 / 10" and nz: "price f \<noteq> 0"
      using f p by auto
    show ?thesis
      using ih False nn nz g by (auto simp: representatives_def Let_def)
  qed
qed

lemma two_values_loop:
  assumes "two_inv gs" and "\<forall>p\<in>set ps. price p \<in> {1000, 1500}"
  shows "\<exists>cs. cluster_loop ps gs = Inr cs \<and> two_inv cs
            \<and> set (representatives cs) = set (representatives gs) \<union> price ` set ps"
  using assms
proof (induction ps arbitrary: gs)
  case Nil
  then show ?case by simp
next
  case (Cons p ps)
  have inv: "\<forall>g\<in>set gs. g \<noteq> [] \<and> price (hd g) \<in> {1000, 1500}"
    using Cons.prems(1) by (simp add: two_inv_def)
  have pp: "price p \<in> {1000, 1500}" using Cons.prems(2) by simp
  note sc = two_values_scan [OF inv pp]
  show ?case
  proof (cases "price p \<in> set (representatives gs)")
    case True
    then obtain gs' where gs': "scan_groups p gs = Inr (Some gs')"
      "representatives gs' = representatives gs" "\<forall>g\<in>set gs'. g \<noteq> []"
      using sc by blast
    have "\<forall>g\<in>set gs'. price (hd g) \<in> set (representatives gs')"
      by (auto simp: representatives_def)
    moreover have "set (representatives gs) \<subseteq> {1000, 1500}"
      using inv by (auto simp: representatives_def)
    ultimately have "two_inv gs'"
      using gs' Cons.prems(1) unfolding two_inv_def by (metis subsetD)
    from Cons.IH [OF this] Cons.prems(2) obtain cs where
      "cluster_loop ps gs' = Inr cs" "two_inv cs"
      "set (representatives cs) = set (representatives gs') \<union> price ` set ps"
      by auto
    then show ?thesis using gs' True by auto
  next
    case False
    then have sn: "scan_groups p gs = Inr None" using sc by blast
    have "two_inv (gs @ [[p]])"
      using Cons.prems(1) pp False by (auto simp: two_inv_def representatives_def)
    from Cons.IH [OF this] Cons.prems(2) obtain cs where
      "cluster_loop ps (gs @ [[p]]) = Inr cs" "two_inv cs"
      "set (representatives cs) = set (representatives (gs @ [[p]])) \<union> price ` set ps"
      by auto
    then show ?thesis using sn by (auto simp: representatives_def)
  qed
qed

lemma two_values_report:
  assumes "set (map price qs) = {1000, 1500}"
  shows "\<exists>d. analyze_category cat qs = Inr [d]
           \<and> price_range d = ascii ''Rs. 1000 - Rs. 1500''
           \<and> difference_percentage d = ascii ''50.0%''"
proof -
  have all: "\<forall>p\<in>set qs. price p \<in> {1000, 1500}" using assms by auto
  have "two_inv []" by (simp add: two_inv_def representatives_def)
  from two_values_loop [OF this all] obtain cs where
    cs: "cluster_prices qs = Inr cs" and inv: "two_inv cs"
    and reps: "set (representatives cs) = {1000, 1500}"
    using assms by (auto simp: cluster_prices_def representatives_def)
  have ne: "\<forall>g\<in>set cs. g \<noteq> []" using inv by (simp add: two_inv_def)
  have "card (set (representatives cs)) = length (representatives cs)"
    using inv by (simp add: two_inv_def distinct_card)
  then have len: "length cs = 2" using reps by (simp add: representatives_def)
  have "card (price ` set qs) \<le> length qs"
    by (metis card_image_le card_length le_trans List.finite_set)
  then have lq: "1 < length qs" using assms by simp
  show ?thesis
    using lq len
    by (simp add: analyze_category_def cs report_groups_char [OF ne] reps Let_def
          f0_1000 f0_1500 f1_50)
qed

lemma two_values_mset:
  assumes "mset (map price qs) = {#1000, 1000, 1000, 1500, 1500#}"
  shows "set (map price qs) = {1000, 1500}"
proof -
  have "set_mset (mset (map price qs)) = {1000, 1500}" unfolding assms by auto
  then show ?thesis by simp
qed

lemma near_in_band:
  fixes r v :: rat
  assumes "1000 \<le> r" "r \<le> 1050" "1000 \<le> v" "v \<le> 1050"
  shows "r \<noteq> 0 \<and> \<bar>v - r\<bar> / r < 1 / 10"
proof -
  have r: "0 < r" using assms by linarith
  have "\<bar>v - r\<bar> \<le> 50" using assms unfolding abs_le_iff by auto
  then have "\<bar>v - r\<bar> * 10 < r" using assms by simp
  then have "\<bar>v - r\<bar> / r < 1 / 10" using r by (simp add: field_simps)
  then show ?thesis using r by simp
qed

lemma one_scan:
  assumes "g \<noteq> []" "1000 \<le> price (hd g)" "price (hd g) \<le> 1050"
    and "1000 \<le> price p" "price p \<le> 1050"
  shows "scan_groups p [g] = Inr (Some [g @ [p]])"
proof (cases g)
  case Nil
  with assms show ?thesis by simp
next
  case (Cons f g')
  with near_in_band [of "price f" "price p"] assms show ?thesis
    by (simp add: Let_def)
qed

lemma one_loop:
  assumes "one_inv gs" and "\<forall>p\<in>set ps. 1000 \<le> price p \<and> price p \<le> 1050"
  shows "\<exists>cs. cluster_loop ps gs = Inr cs \<and> one_inv cs \<and> (gs \<noteq> [] \<or> ps \<noteq> [] \<longrightarrow> cs \<noteq> [])"
  using assms
proof (induction ps arbitrary: gs)
  case Nil
  then show ?case by simp
next
  case (Cons p ps)
  have p: "1000 \<le> price p" "price p \<le> 1050" using Cons.prems(2) by simp_all
  have rest: "\<forall>p\<in>set ps. 1000 \<le> price p \<and> price p \<le> 1050" using Cons.prems(2) by simp
  show ?case
  proof (cases "gs = []")
    case True
    have "one_inv [[p]]" using p by (simp add: one_inv_def)
    from Cons.IH [OF this rest] obtain cs where
      "cluster_loop ps [[p]] = Inr cs" "one_inv cs" "cs \<noteq> []" by auto
    then show ?thesis using True by simp
  next
    case False
    then obtain g where g: "gs = [g]" "g \<noteq> []" "1000 \<le> price (hd g)" "price (hd g) \<le> 1050"
      using Cons.prems(1) by (auto simp: one_inv_def)
    have sc: "scan_groups p gs = Inr (Some [g @ [p]])"
      using one_scan [OF g(2) g(3) g(4) p] g(1) by simp
    have "one_inv [g @ [p]]" using g by (simp add: one_inv_def)
    from Cons.IH [OF this rest] obtain cs where
      "cluster_loop ps [g @ [p]] = Inr cs" "one_inv cs" "cs \<noteq> []" by auto
    then show ?thesis using sc by simp
  qed
qed

lemma one_cluster_report:
  assumes "set (map price qs) = {1000, 1030, 1050}"
  shows "(\<exists>c. cluster_prices qs = Inr [c]) \<and> analyze_category cat qs = Inr []"
proof -
  have band: "\<forall>p\<in>set qs. 1000 \<le> price p \<and> price p \<le> 1050"
  proof
    fix p assume "p \<in> set qs"
    then have "price p \<in> {1000, 1030, 1050}" using assms by auto
    then show "1000 \<le> price p \<and> price p \<le> 1050" by auto
  qed
  have ne: "qs \<noteq> []" using assms by auto
  have "one_inv []" by (simp add: one_inv_def)
  from one_loop [OF this band] ne obtain cs where
    cs: "cluster_prices qs = Inr cs" "one_inv cs" "cs \<noteq> []"
    by (auto simp: cluster_prices_def)
  then obtain c where c: "cs = [c]" by (auto simp: one_inv_def)
  show ?thesis
    using cs(1) c by (simp add: analyze_category_def report_groups_def)
qed

lemma cluster_prices_spec: "cluster_prices ps = Inr cs \<Longrightarrow> cs = spec_cluster ps"
  unfolding cluster_prices_def spec_cluster_def by (rule cluster_loop_spec)

lemma cluster_prices_total:
  assumes "\<forall>p\<in>set ps. price p \<noteq> 0"
  shows "cluster_prices ps = Inr (spec_cluster ps)"
proof -
  have "heads_nonzero []" by (simp add: heads_nonzero_def)
  from cluster_loop_total [OF this assms] obtain cs where "cluster_prices ps = Inr cs"
    by (auto simp: cluster_prices_def)
  then show ?thesis using cluster_prices_spec by blast
qed

text \<open>
  C1. For the facts of one category, whenever the analysis returns, it appends a
  PricingDiscrepancy if and only if the clustering gave more than one cluster and
  (max representative - min representative) / min representative > 0.2, and it appends
  at most one; it returns whenever no price is zero. A single cluster never gives a
  discrepancy, whatever its size. Facts whose prices are 1000 (three times) and 1500
  (twice), in any order, give exactly one discrepancy, with price range
  "Rs. 1000 - Rs. 1500" and difference "50.0%".
\<close>

theorem pricing_discrepancy_trigger:
  "(analyze_category cat ps = Inr ds \<longrightarrow>
      (\<exists>cs. cluster_prices ps = Inr cs \<and> (ds \<noteq> [] \<longleftrightarrow> spec_trigger cs) \<and> length ds \<le> 1))
   \<and> ((\<forall>p\<in>set ps. price p \<noteq> 0) \<longrightarrow> (\<exists>ds'. analyze_category cat ps = Inr ds'))
   \<and> (cluster_prices ps = Inr [c] \<longrightarrow> analyze_category cat ps = Inr [])
   \<and> (mset (map price qs) = {#1000, 1000, 1000, 1500, 1500#} \<longrightarrow>
        (\<exists>d. analyze_category cat qs = Inr [d]
           \<and> price_range d = ascii ''Rs. 1000 - Rs. 1500''
           \<and> difference_percentage d = ascii ''50.0%''))"
proof (intro conjI impI)
  assume "analyze_category cat ps = Inr ds"
  then show "\<exists>cs. cluster_prices ps = Inr cs \<and> (ds \<noteq> [] \<longleftrightarrow> spec_trigger cs) \<and> length ds \<le> 1"
    by (rule analyze_category_Inr)
next
  assume "\<forall>p\<in>set ps. price p \<noteq> 0"
  then show "\<exists>ds'. analyze_category cat ps = Inr ds'"
    by (rule analyze_category_total)
next
  assume "cluster_prices ps = Inr [c]"
  then show "analyze_category cat ps = Inr []"
    by (rule analyze_category_single)
next
  assume "mset (map price qs) = {#1000, 1000, 1000, 1500, 1500#}"
  then have "set (map price qs) = {1000, 1500}"
    by (rule two_values_mset)
  then show "\<exists>d. analyze_category cat qs = Inr [d]
           \<and> price_range d = ascii ''Rs. 1000 - Rs. 1500''
           \<and> difference_percentage d = ascii ''50.0%''"
    by (rule two_values_report)
qed

theorem pricing_discrepancy_trigger_witness:
  "list_all (\<lambda>p. price p \<noteq> 0) (map price_fact [1000, 1000, 1000, 1500, 1500])
   \<and> (\<exists>d cs. analyze_category (ascii ''fiber'') (map price_fact [1000, 1000, 1000, 1500, 1500]) = Inr [d]
         \<and> price_range d = ascii ''Rs. 1000 - Rs. 1500''
         \<and> difference_percentage d = ascii ''50.0%''
         \<and> cluster_prices (map price_fact [1000, 1000, 1000, 1500, 1500]) = Inr cs
         \<and> spec_trigger cs)
   \<and> cluster_prices (map price_fact [1000, 1010]) = Inr [map price_fact [1000, 1010]]
   \<and> analyze_category (ascii ''fiber'') (map price_fact [1000, 1010]) = Inr []"
proof -
  let ?ps = "map price_fact [1000, 1000, 1000, 1500, 1500]"
  let ?qs = "map price_fact [1000, 1010]"
  let ?cat = "ascii ''fiber''"
  have nz: "\<forall>p\<in>set ?ps. price p \<noteq> 0" by (simp add: price_fact_def)
  have m: "mset (map price ?ps) = {#1000, 1000, 1000, 1500, 1500#}"
    by (simp add: price_fact_def)
  have one: "cluster_prices ?qs = Inr [?qs]"
    by (simp add: cluster_prices_def price_fact_def)
  note t = pricing_discrepancy_trigger [where cat = ?cat and qs = ?ps]
  from t [where ps = ?ps] m obtain d where
    d: "analyze_category ?cat ?ps = Inr [d]" "price_range d = ascii ''Rs. 1000 - Rs. 1500''"
       "difference_percentage d = ascii ''50.0%''"
    by blast
  from t [where ps = ?ps and ds = "[d]"] d(1) obtain cs where
    cs: "cluster_prices ?ps = Inr cs" "spec_trigger cs"
    by auto
  from t [where ps = ?qs and c = ?qs] one have "analyze_category ?cat ?qs = Inr []"
    by blast
  with nz d cs one show ?thesis unfolding list_all_iff by blast
qed

text \<open>
  C2. Whenever the clustering of the program returns, its clusters are those of the
  greedy nearest-bucket policy: each fact, in order, joins the first cluster whose
  representative (its first member, never updated) is within 10 percent, and opens a
  new cluster when there is none. It returns whenever no price is zero. Facts whose
  prices are 1000, 1030 and 1050, in any order and number, form one cluster and give
  no PricingDiscrepancy.
\<close>

theorem greedy_clustering_policy:
  "(cluster_prices ps = Inr cs \<longrightarrow> cs = spec_cluster ps)
   \<and> ((\<forall>p\<in>set ps. price p \<noteq> 0) \<longrightarrow> cluster_prices ps = Inr (spec_cluster ps))
   \<and> (set (map price qs) = {1000, 1030, 1050} \<longrightarrow>
        (\<exists>c. cluster_prices qs = Inr [c]) \<and> analyze_category cat qs = Inr [])"
  using cluster_prices_spec [of ps cs] cluster_prices_total [of ps] one_cluster_report [of qs cat]
  by blast

theorem greedy_clustering_policy_witness:
  "list_all (\<lambda>p. price p \<noteq> 0) (map price_fact [1000, 1030, 1050])
   \<and> cluster_prices (map price_fact [1000, 1030, 1050]) = Inr [map price_fact [1000, 1030, 1050]]
   \<and> spec_cluster (map price_fact [1000, 1030, 1050]) = [map price_fact [1000, 1030, 1050]]
   \<and> analyze_category (ascii ''fiber'') (map price_fact [1000, 1030, 1050]) = Inr []"
proof -
  let ?ps = "map price_fact [1000, 1030, 1050]"
  have nz: "\<forall>p\<in>set ?ps. price p \<noteq> 0" by (simp add: price_fact_def)
  have s: "set (map price ?ps) = {1000, 1030, 1050}" by (simp add: price_fact_def)
  have c: "cluster_prices ?ps = Inr [?ps]"
    by (simp add: cluster_prices_def price_fact_def)
  note t = greedy_clustering_policy [where ps = ?ps and qs = ?ps and cat = "ascii ''fiber''"]
  from t [where cs = "[?ps]"] c have "[?ps] = spec_cluster ?ps" by blast
  moreover from t s have "analyze_category (ascii ''fiber'') ?ps = Inr []" by blast
  ultimately show ?thesis using nz c unfolding list_all_iff by simp
qed

text \<open>
  C3, as the program has it. In every cluster the clustering returns, every member
  other than the representative (the first member) was compared with the
  representative: the representative is not zero and the member's distance relative to
  it is below 10 percent. Two members that are not the representative are not compared
  with each other.
\<close>

theorem cluster_members_near_representative:
  "cluster_prices ps = Inr cs \<Longrightarrow>
     \<forall>c\<in>set cs. c \<noteq> [] \<and>
       (\<forall>m\<in>set (tl c). price (hd c) \<noteq> 0 \<and> rel_dist (price m) (price (hd c)) < 1 / 10)"
  using cluster_prices_within [of ps cs] by (simp add: within_rep_def rep_ok_def)

theorem cluster_members_near_representative_witness:
  "cluster_prices (map price_fact [1000, 1090, 910]) = Inr [map price_fact [1000, 1090, 910]]
   \<and> rel_dist (price (price_fact 1090)) (price (price_fact 1000)) < 1 / 10
   \<and> rel_dist (price (price_fact 910)) (price (price_fact 1000)) < 1 / 10"
proof -
  let ?ps = "map price_fact [1000, 1090, 910]"
  have c: "cluster_prices ?ps = Inr [?ps]"
    by (simp add: cluster_prices_def price_fact_def)
  from cluster_members_near_representative [OF c] show ?thesis
    using c by simp
qed

text \<open>
  The claim C3 as stated fails: 1000, 1090 and 910 land in one cluster, and the
  distance between the members 1090 and 910 is not below 10 percent, in either
  direction.
\<close>

theorem pairwise_distance_counterexample:
  "cluster_prices [price_fact 1000, price_fact 1090, price_fact 910]
     = Inr [[price_fact 1000, price_fact 1090, price_fact 910]]
   \<and> \<not> rel_dist (price (price_fact 1090)) (price (price_fact 910)) < 1 / 10
   \<and> \<not> rel_dist (price (price_fact 910)) (price (price_fact 1090)) < 1 / 10"
  by (simp add: cluster_prices_def price_fact_def rel_dist_def)

text \<open>
  C4. The clustering has no guard for a zero representative. With the facts 0 and 100
  the second fact is compared with the representative 0 and the division raises; with
  the facts 1000 and 0 the clustering returns two clusters and the threshold
  comparison divides by the least representative 0.
\<close>

theorem zero_representative_raises:
  "cluster_prices [price_fact 0, price_fact 100] = Inl ZeroDivisionError
   \<and> cluster_prices [price_fact 1000, price_fact 0] = Inr [[price_fact 1000], [price_fact 0]]
   \<and> analyze_category (ascii ''unknown'') [price_fact 1000, price_fact 0] = Inl ZeroDivisionError"
  by (simp add: cluster_prices_def analyze_category_def report_groups_def group_range_def
        price_fact_def)

section \<open>Properties of the language classifiers, the pairing and the price lists\<close>

lemma all_dropWhile: "(\<forall>x\<in>set (dropWhile P xs). P x) = (\<forall>x\<in>set xs. P x)"
  by (induction xs) auto

lemma py_strip_empty: "py_strip txt = [] \<longleftrightarrow> blank txt"
  by (simp add: py_strip_def blank_def list_all_iff all_dropWhile)

lemma sinhala_not_space: "is_sinhala c \<Longrightarrow> \<not> py_isspace c"
  by (auto simp: is_sinhala_def py_isspace_def)

lemma alpha_not_space: "is_ascii_alpha c \<Longrightarrow> \<not> py_isspace c"
  by (auto simp: is_ascii_alpha_def py_isspace_def)

lemma blank_counts:
  "blank txt \<Longrightarrow> length (filter is_sinhala txt) = 0 \<and> length (filter is_ascii_alpha txt) = 0"
  by (auto simp: blank_def list_all_iff filter_empty_conv dest: sinhala_not_space alpha_not_space)

lemma detect_language_spec:
  "detect_language txt =
     (if blank txt then ascii ''empty''
      else spec_classify (length (filter is_sinhala txt)) (length (filter is_ascii_alpha txt)))"
  by (cases "txt = []") (simp_all add: detect_language_def spec_classify_def py_strip_empty blank_def Let_def)

lemma ratio_gt_7:
  assumes "0 < T"
  shows "(7 / 10 < (of_nat k :: rat) / of_nat T) = (7 * T < 10 * k)"
proof -
  have t: "(0::rat) < of_nat T" using assms by (simp only: of_nat_0_less_iff)
  have "(7 / 10 < (of_nat k :: rat) / of_nat T) = (7 * (of_nat T :: rat) < 10 * of_nat k)"
    using t by (simp add: field_simps)
  also have "\<dots> = ((of_nat (7 * T) :: rat) < of_nat (10 * k))" by simp
  also have "\<dots> = (7 * T < 10 * k)" by (rule of_nat_less_iff)
  finally show ?thesis .
qed

lemma ratio_gt_1:
  assumes "0 < T"
  shows "(1 / 10 < (of_nat k :: rat) / of_nat T) = (T < 10 * k)"
proof -
  have t: "(0::rat) < of_nat T" using assms by (simp only: of_nat_0_less_iff)
  have "(1 / 10 < (of_nat k :: rat) / of_nat T) = ((of_nat T :: rat) < 10 * of_nat k)"
    using t by (simp add: field_simps)
  also have "\<dots> = ((of_nat T :: rat) < of_nat (10 * k))" by simp
  also have "\<dots> = (T < 10 * k)" by (rule of_nat_less_iff)
  finally show ?thesis .
qed

lemma ratio_gt_half:
  assumes "0 < T"
  shows "(1 / 2 < (of_nat k :: rat) / of_nat T) = (T < 2 * k)"
proof -
  have t: "(0::rat) < of_nat T" using assms by (simp only: of_nat_0_less_iff)
  have "(1 / 2 < (of_nat k :: rat) / of_nat T) = ((of_nat T :: rat) < 2 * of_nat k)"
    using t by (simp add: field_simps)
  also have "\<dots> = ((of_nat T :: rat) < of_nat (2 * k))" by simp
  also have "\<dots> = (T < 2 * k)" by (rule of_nat_less_iff)
  finally show ?thesis .
qed

lemma ratio_less:
  assumes "0 < T"
  shows "((of_nat j :: rat) / of_nat T < of_nat k / of_nat T) = (j < k)"
proof -
  have t: "(0::rat) < of_nat T" using assms by (simp only: of_nat_0_less_iff)
  have "((of_nat j :: rat) / of_nat T < of_nat k / of_nat T) = ((of_nat j :: rat) < of_nat k)"
    using t by (simp add: divide_less_cancel)
  also have "\<dots> = (j < k)" by (rule of_nat_less_iff)
  finally show ?thesis .
qed

lemma spec_classify_int:
  assumes pos: "0 < s + e"
  shows "spec_classify s e =
     (if 7 * (s + e) < 10 * s then ascii ''sinhala''
      else if 7 * (s + e) < 10 * e then ascii ''english''
      else if s + e < 10 * s \<and> s + e < 10 * e then ascii ''mixed''
      else ascii ''other'')"
  unfolding spec_classify_def Let_def ratio_gt_7 [OF pos] ratio_gt_1 [OF pos]
  using pos by simp

lemma da_detect_language_int:
  "da_detect_language txt =
     (let s = length (filter is_sinhala txt); e = length (filter is_ascii_alpha txt);
          n = length (filter (\<lambda>c. c \<noteq> 0x20) txt)
      in if n = 0 then ascii ''unknown''
         else if n < 10 * s then (if e < s then ascii ''sinhala'' else ascii ''mixed'')
         else if n < 2 * e then ascii ''english''
         else ascii ''mixed'')"
proof (cases "length (filter (\<lambda>c. c \<noteq> 0x20) txt) = 0")
  case True
  then show ?thesis by (simp add: da_detect_language_def Let_def)
next
  case False
  then have pos: "0 < length (filter (\<lambda>c. c \<noteq> 0x20) txt)" by simp
  then have ne: "txt \<noteq> []" by auto
  show ?thesis
    unfolding da_detect_language_def Let_def ratio_gt_1 [OF pos] ratio_gt_half [OF pos]
      ratio_less [OF pos]
    using pos ne by simp
qed

lemma match_pairs_sym: "length xs = length ys \<Longrightarrow> match_pairs (zip xs ys) tol = match_pairs (zip ys xs) tol"
proof (induction xs arbitrary: ys)
  case Nil
  then show ?case by simp
next
  case (Cons x xs)
  then obtain y ys' where ys: "ys = y # ys'" by (cases ys) auto
  with Cons show ?case by (simp add: max.commute abs_minus_commute)
qed

lemma price_lists_match_sym: "price_lists_match a b tol = price_lists_match b a tol"
  by (auto simp: price_lists_match_def intro: match_pairs_sym)



lemma update_fresh: "k \<notin> fst ` set al \<Longrightarrow> AList.update k v al = al @ [(k, v)]"
  by (induction al) auto

lemma partition_english:
  "distinct (map fst data) \<Longrightarrow> fst ` set (english_pages b) \<inter> fst ` set data = {} \<Longrightarrow>
     english_pages (partition_pages data b) =
       english_pages b @ map (\<lambda>(u, pd). (u, all_text pd))
         (filter (\<lambda>(u, pd). detect_language (all_text pd) = ascii ''english'') data)"
proof (induction data arbitrary: b)
  case Nil
  then show ?case by simp
next
  case (Cons x data)
  obtain u pd where x: "x = (u, pd)" by (cases x)
  have d: "distinct (map fst data)" and u: "u \<notin> fst ` set data" "u \<notin> fst ` set (english_pages b)"
    and dis: "fst ` set (english_pages b) \<inter> fst ` set data = {}"
    using Cons.prems x by auto
  define b' where "b' =
     (if detect_language (all_text pd) = ascii ''english''
      then b\<lparr>english_pages := AList.update u (all_text pd) (english_pages b)\<rparr>
      else if detect_language (all_text pd) = ascii ''sinhala''
      then b\<lparr>sinhala_pages := AList.update u (all_text pd) (sinhala_pages b)\<rparr>
      else if detect_language (all_text pd) = ascii ''mixed''
      then b\<lparr>mixed_pages := AList.update u (all_text pd) (mixed_pages b)\<rparr>
      else b)"
  have step: "partition_pages (x # data) b = partition_pages data b'"
    by (simp add: x b'_def Let_def)
  have e: "english_pages b' =
     (if detect_language (all_text pd) = ascii ''english''
      then english_pages b @ [(u, all_text pd)] else english_pages b)"
    using u(2) by (simp add: b'_def update_fresh)
  have "fst ` set (english_pages b') \<inter> fst ` set data = {}"
    unfolding e using dis u(1) by auto
  from Cons.IH [OF d this] show ?case
    unfolding step e using x by simp
qed

lemma partition_sinhala:
  "distinct (map fst data) \<Longrightarrow> fst ` set (sinhala_pages b) \<inter> fst ` set data = {} \<Longrightarrow>
     sinhala_pages (partition_pages data b) =
       sinhala_pages b @ map (\<lambda>(u, pd). (u, all_text pd))
         (filter (\<lambda>(u, pd). detect_language (all_text pd) = ascii ''sinhala'') data)"
proof (induction data arbitrary: b)
  case Nil
  then show ?case by simp
next
  case (Cons x data)
  obtain u pd where x: "x = (u, pd)" by (cases x)
  have d: "distinct (map fst data)" and u: "u \<notin> fst ` set data" "u \<notin> fst ` set (sinhala_pages b)"
    and dis: "fst ` set (sinhala_pages b) \<inter> fst ` set data = {}"
    using Cons.prems x by auto
  define b' where "b' =
     (if detect_language (all_text pd) = ascii ''english''
      then b\<lparr>english_pages := AList.update u (all_text pd) (english_pages b)\<rparr>
      else if detect_language (all_text pd) = ascii ''sinhala''
      then b\<lparr>sinhala_pages := AList.update u (all_text pd) (sinhala_pages b)\<rparr>
      else if detect_language (all_text pd) = ascii ''mixed''
      then b\<lparr>mixed_pages := AList.update u (all_text pd) (mixed_pages b)\<rparr>
      else b)"
  have step: "partition_pages (x # data) b = partition_pages data b'"
    by (simp add: x b'_def Let_def)
  have e: "sinhala_pages b' =
     (if detect_language (all_text pd) = ascii ''sinhala''
      then sinhala_pages b @ [(u, all_text pd)] else sinhala_pages b)"
    using u(2) by (simp add: b'_def update_fresh)
  have "fst ` set (sinhala_pages b') \<inter> fst ` set data = {}"
    unfolding e using dis u(1) by auto
  from Cons.IH [OF d this] show ?case
    unfolding step e using x by simp
qed

lemma partition_mixed:
  "distinct (map fst data) \<Longrightarrow> fst ` set (mixed_pages b) \<inter> fst ` set data = {} \<Longrightarrow>
     mixed_pages (partition_pages data b) =
       mixed_pages b @ map (\<lambda>(u, pd). (u, all_text pd))
         (filter (\<lambda>(u, pd). detect_language (all_text pd) = ascii ''mixed'') data)"
proof (induction data arbitrary: b)
  case Nil
  then show ?case by simp
next
  case (Cons x data)
  obtain u pd where x: "x = (u, pd)" by (cases x)
  have d: "distinct (map fst data)" and u: "u \<notin> fst ` set data" "u \<notin> fst ` set (mixed_pages b)"
    and dis: "fst ` set (mixed_pages b) \<inter> fst ` set data = {}"
    using Cons.prems x by auto
  define b' where "b' =
     (if detect_language (all_text pd) = ascii ''english''
      then b\<lparr>english_pages := AList.update u (all_text pd) (english_pages b)\<rparr>
      else if detect_language (all_text pd) = ascii ''sinhala''
      then b\<lparr>sinhala_pages := AList.update u (all_text pd) (sinhala_pages b)\<rparr>
      else if detect_language (all_text pd) = ascii ''mixed''
      then b\<lparr>mixed_pages := AList.update u (all_text pd) (mixed_pages b)\<rparr>
      else b)"
  have step: "partition_pages (x # data) b = partition_pages data b'"
    by (simp add: x b'_def Let_def)
  have e: "mixed_pages b' =
     (if detect_language (all_text pd) = ascii ''mixed''
      then mixed_pages b @ [(u, all_text pd)] else mixed_pages b)"
    using u(2) by (simp add: b'_def update_fresh)
  have "fst ` set (mixed_pages b') \<inter> fst ` set data = {}"
    unfolding e using dis u(1) by auto
  from Cons.IH [OF d this] show ?case
    unfolding step e using x by simp
qed

text \<open>
  C6. The short-context classifier returns \<open>empty\<close> for a blank text (empty or
  whitespace only), and otherwise what the specification says on the two counts:
  \<open>no_text\<close> when there is no Sinhala and no ASCII letter, \<open>sinhala\<close> when the
  Sinhala ratio is above 0.7, \<open>english\<close> when the English ratio is above 0.7,
  \<open>mixed\<close> when both are above 0.1, and \<open>other\<close> otherwise. A text with 8 Sinhala
  letters and no Latin letter is \<open>sinhala\<close>, a text with as many Sinhala as Latin
  letters (at least one) is \<open>mixed\<close>, and the empty text is \<open>empty\<close>.
\<close>

theorem detect_language_classification:
  "detect_language txt =
     (if blank txt then ascii ''empty''
      else spec_classify (length (filter is_sinhala txt)) (length (filter is_ascii_alpha txt)))
   \<and> (length (filter is_sinhala txt) = 8 \<and> length (filter is_ascii_alpha txt) = 0
        \<longrightarrow> detect_language txt = ascii ''sinhala'')
   \<and> (0 < length (filter is_sinhala txt)
        \<and> length (filter is_sinhala txt) = length (filter is_ascii_alpha txt)
        \<longrightarrow> detect_language txt = ascii ''mixed'')
   \<and> detect_language [] = ascii ''empty''"
proof (intro conjI impI)
  show "detect_language txt =
     (if blank txt then ascii ''empty''
      else spec_classify (length (filter is_sinhala txt)) (length (filter is_ascii_alpha txt)))"
    by (rule detect_language_spec)
next
  assume a: "length (filter is_sinhala txt) = 8 \<and> length (filter is_ascii_alpha txt) = 0"
  then have "\<not> blank txt" using blank_counts [of "txt"] by auto
  then show "detect_language txt = ascii ''sinhala''"
    using a by (simp add: detect_language_spec spec_classify_int)
next
  assume a: "0 < length (filter is_sinhala txt)
        \<and> length (filter is_sinhala txt) = length (filter is_ascii_alpha txt)"
  then have nb: "\<not> blank txt" using blank_counts [of "txt"] by auto
  define n where "n = length (filter is_ascii_alpha txt)"
  have n: "0 < n" "length (filter is_sinhala txt) = n" using a unfolding n_def by arith+
  then have pos: "0 < n + n" by simp
  have "spec_classify n n = ascii ''mixed''"
    using spec_classify_int [OF pos] n(1) by simp
  then show "detect_language txt = ascii ''mixed''"
    using nb n by (simp add: detect_language_spec n_def)
next
  show "detect_language [] = ascii ''empty''"
    by (simp add: detect_language_def)
qed

theorem detect_language_classification_witness:
  "detect_language (replicate 8 0x0D85) = ascii ''sinhala''
   \<and> detect_language ([0x0D85, 0x0DC3] @ ascii ''ab'') = ascii ''mixed''
   \<and> detect_language (ascii ''  '') = ascii ''empty''"
proof -
  have 1: "length (filter is_sinhala (replicate 8 0x0D85)) = 8
      \<and> length (filter is_ascii_alpha (replicate 8 0x0D85)) = 0"
    by (simp add: is_sinhala_def is_ascii_alpha_def)
  have 2: "0 < length (filter is_sinhala ([0x0D85, 0x0DC3] @ ascii ''ab''))
      \<and> length (filter is_sinhala ([0x0D85, 0x0DC3] @ ascii ''ab''))
          = length (filter is_ascii_alpha ([0x0D85, 0x0DC3] @ ascii ''ab''))"
    by (simp add: is_sinhala_def is_ascii_alpha_def)
  have 3: "blank (ascii ''  '')" by (simp add: blank_def py_isspace_def)
  from detect_language_classification [of "replicate 8 0x0D85"] 1
  have a: "detect_language (replicate 8 0x0D85) = ascii ''sinhala''" by blast
  from detect_language_classification [of "[0x0D85, 0x0DC3] @ ascii ''ab''"] 2
  have b: "detect_language ([0x0D85, 0x0DC3] @ ascii ''ab'') = ascii ''mixed''" by blast
  from detect_language_classification [of "ascii ''  ''"] 3
  have c: "detect_language (ascii ''  '') = ascii ''empty''" by simp
  from a b c show ?thesis by blast
qed


text \<open>
  C10. Price-list matching is symmetric in its two lists, for every tolerance: the same
  result, and the same exception when the larger price of a pair is zero.
\<close>

theorem price_lists_match_symmetric:
  "price_lists_match a b tol = price_lists_match b a tol"
  by (rule price_lists_match_sym)


lemma partition_no_pages:
  assumes "distinct (map fst data)"
  shows "english_pages (partition_pages data no_pages) =
           map (\<lambda>(u, pd). (u, all_text pd))
             (filter (\<lambda>(u, pd). detect_language (all_text pd) = ascii ''english'') data)"
    and "sinhala_pages (partition_pages data no_pages) =
           map (\<lambda>(u, pd). (u, all_text pd))
             (filter (\<lambda>(u, pd). detect_language (all_text pd) = ascii ''sinhala'') data)"
    and "mixed_pages (partition_pages data no_pages) =
           map (\<lambda>(u, pd). (u, all_text pd))
             (filter (\<lambda>(u, pd). detect_language (all_text pd) = ascii ''mixed'') data)"
  using partition_english [OF assms, of no_pages] partition_sinhala [OF assms, of no_pages]
    partition_mixed [OF assms, of no_pages]
  by (simp_all add: no_pages_def)

text \<open>
  C7, as the program has it. The pages are put into the english, sinhala and mixed
  buckets by the short-context classifier \<open>detect_language\<close> applied to the whole
  text of the page: each bucket holds, in order, the pages that classifier gives the
  bucket's language. The classifier with the thresholds 0.1 and 0.5 is the separate
  function of the second analyzer: with the counts taken over the characters other
  than the space, a Sinhala ratio above 0.1 gives \<open>sinhala\<close> or \<open>mixed\<close>, otherwise an
  English ratio above 0.5 gives \<open>english\<close>, and anything else \<open>mixed\<close>.
\<close>

theorem page_partition_uses_context_classifier:
  "(distinct (map fst data) \<longrightarrow>
      english_pages (partition_pages data no_pages) =
        map (\<lambda>(u, pd). (u, all_text pd))
          (filter (\<lambda>(u, pd). detect_language (all_text pd) = ascii ''english'') data)
      \<and> sinhala_pages (partition_pages data no_pages) =
        map (\<lambda>(u, pd). (u, all_text pd))
          (filter (\<lambda>(u, pd). detect_language (all_text pd) = ascii ''sinhala'') data)
      \<and> mixed_pages (partition_pages data no_pages) =
        map (\<lambda>(u, pd). (u, all_text pd))
          (filter (\<lambda>(u, pd). detect_language (all_text pd) = ascii ''mixed'') data))
   \<and> da_detect_language txt =
     (let s = length (filter is_sinhala txt); e = length (filter is_ascii_alpha txt);
          n = length (filter (\<lambda>c. c \<noteq> 0x20) txt)
      in if n = 0 then ascii ''unknown''
         else if n < 10 * s then (if e < s then ascii ''sinhala'' else ascii ''mixed'')
         else if n < 2 * e then ascii ''english''
         else ascii ''mixed'')"
  using partition_no_pages [of data] da_detect_language_int [of "txt"] by blast

theorem page_partition_uses_context_classifier_witness:
  "distinct (map fst [(ascii ''https://www.slt.lk/en/fibre'', mostly_english_page),
                      (ascii ''https://www.slt.lk/si/fibre'', sinhala_page)])
   \<and> english_pages (partition_pages [(ascii ''https://www.slt.lk/en/fibre'', mostly_english_page),
                      (ascii ''https://www.slt.lk/si/fibre'', sinhala_page)] no_pages)
       = [(ascii ''https://www.slt.lk/en/fibre'', all_text mostly_english_page)]
   \<and> sinhala_pages (partition_pages [(ascii ''https://www.slt.lk/en/fibre'', mostly_english_page),
                      (ascii ''https://www.slt.lk/si/fibre'', sinhala_page)] no_pages)
       = [(ascii ''https://www.slt.lk/si/fibre'', all_text sinhala_page)]"
proof -
  let ?data = "[(ascii ''https://www.slt.lk/en/fibre'', mostly_english_page),
                (ascii ''https://www.slt.lk/si/fibre'', sinhala_page)]"
  have d: "distinct (map fst ?data)" by simp
  have e: "detect_language (all_text mostly_english_page) = ascii ''english''"
    by (simp add: mostly_english_page_def all_text_def detect_language_def py_strip_def
          py_isspace_def is_sinhala_def is_ascii_alpha_def)
  have s: "detect_language (all_text sinhala_page) = ascii ''sinhala''"
    by (simp add: sinhala_page_def all_text_def detect_language_def py_strip_def
          py_isspace_def is_sinhala_def is_ascii_alpha_def)
  from page_partition_uses_context_classifier [of ?data] d
  have "english_pages (partition_pages ?data no_pages) =
        map (\<lambda>(u, pd). (u, all_text pd))
          (filter (\<lambda>(u, pd). detect_language (all_text pd) = ascii ''english'') ?data)"
    and "sinhala_pages (partition_pages ?data no_pages) =
        map (\<lambda>(u, pd). (u, all_text pd))
          (filter (\<lambda>(u, pd). detect_language (all_text pd) = ascii ''sinhala'') ?data)"
    by blast+
  then show ?thesis using d e s by simp
qed

text \<open>
  The claim C7 as stated fails: a page with eight Latin and two Sinhala letters goes
  into the english bucket, where the short-context classifier puts it, while the
  classifier with the thresholds 0.1 and 0.5 calls the same text mixed.
\<close>

theorem page_classifier_counterexample:
  "english_pages (partition_pages [(ascii ''https://www.slt.lk/en/fibre'', mostly_english_page)] no_pages)
     = [(ascii ''https://www.slt.lk/en/fibre'', all_text mostly_english_page)]
   \<and> mixed_pages (partition_pages [(ascii ''https://www.slt.lk/en/fibre'', mostly_english_page)] no_pages) = []
   \<and> detect_language (all_text mostly_english_page) = ascii ''english''
   \<and> da_detect_language (all_text mostly_english_page) = ascii ''mixed''"
  by (simp add: mostly_english_page_def no_pages_def all_text_def detect_language_def
        da_detect_language_def py_strip_def py_isspace_def is_sinhala_def is_ascii_alpha_def)

text \<open>
  C8. The count-similarity rule tests only the first page for a price. Two pages with
  different addresses and no features pair when the first has one price and the second
  has none, and do not pair the other way round.
\<close>

theorem count_similarity_pairs_priceless_page:
  "might_be_translations (ascii ''https://www.slt.lk/en/fibre'') (ascii ''https://www.slt.lk/si/contact'')
      \<lparr>info_prices = [1500], info_features = []\<rparr> \<lparr>info_prices = [], info_features = []\<rparr>
   \<and> \<not> might_be_translations (ascii ''https://www.slt.lk/si/contact'') (ascii ''https://www.slt.lk/en/fibre'')
      \<lparr>info_prices = [], info_features = []\<rparr> \<lparr>info_prices = [1500], info_features = []\<rparr>"
  by (simp add: might_be_translations_def normalize_url_def)

section \<open>Properties of the price extraction\<close>

















lemma ignorecase_comma [simp]: "ignorecase_eq 0x2C d = (d = 0x2C)"
  by (auto simp: ignorecase_eq_def re_lower_def)

lemma ignorecase_point [simp]: "ignorecase_eq 0x2E d = (d = 0x2E)"
  by (auto simp: ignorecase_eq_def re_lower_def)






































































end
